theory Spec2Isabelle
  imports Main "HOL-Library.Char_ord" "HOL-Library.List_Lexorder" "HOL-Library.Sublist"
    "HOL-Library.AList"
begin

section \<open>Go values used by the generator\<close>

text \<open>
  A Go \<open>string\<close> is a sequence of bytes: \<open>len\<close> counts bytes, slicing cuts at byte
  positions and comparison is bytewise lexicographic, which is the order of
  \<^theory_text>\<open>List_Lexorder\<close> over \<^theory_text>\<open>Char_ord\<close>.

  A Go \<open>map[string]string\<close> is an association list with distinct keys. The order of the
  list is the order in which one \<open>for ... range\<close> loop happens to visit the entries; Go
  leaves that order unspecified, so two lists with the same entries stand for the same map.
\<close>

type_synonym gomap = "(string \<times> string) list"

text \<open>\<open>TomlTable\<close> is a map from column name to column type, \<open>TomlTables\<close> a map from table
  name to table.\<close>

type_synonym TomlTable = "gomap"

type_synonym TomlTables = "(string \<times> TomlTable) list"

text \<open>The keys of a map are distinct.\<close>

definition wf_map :: "('k \<times> 'v) list \<Rightarrow> bool" where
  "wf_map m = distinct (map fst m)"

text \<open>Two iteration orders of one map.\<close>

definition same_map :: "('k \<times> 'v) list \<Rightarrow> ('k \<times> 'v) list \<Rightarrow> bool" where
  "same_map m1 m2 = (wf_map m1 \<and> wf_map m2 \<and> set m1 = set m2)"

text \<open>A run-time panic of the Go program. \<open>s[:hi]\<close> panics when \<open>hi\<close> is negative or
  beyond \<open>len(s)\<close>.\<close>

datatype error = SliceBoundsOutOfRange int

definition slice_to :: "string \<Rightarrow> int \<Rightarrow> error + string" where
  "slice_to s hi =
     (if hi < 0 \<or> int (length s) < hi then Inl (SliceBoundsOutOfRange hi)
      else Inr (take (nat hi) s))"

subsection \<open>Package \<open>strings\<close>\<close>

text \<open>\<open>strings.Split(s, sep)\<close> for a separator of one byte: all the pieces of \<open>s\<close> between
  separators, so one piece more than there are separators.\<close>

fun Split :: "string \<Rightarrow> char \<Rightarrow> string list" where
  "Split [] sep = [[]]"
| "Split (c # cs) sep =
     (if c = sep then [] # Split cs sep
      else (case Split cs sep of [] \<Rightarrow> [[c]] | p # ps \<Rightarrow> (c # p) # ps))"

text \<open>\<open>strings.Join(elems, sep)\<close>.\<close>

fun Join :: "string list \<Rightarrow> string \<Rightarrow> string" where
  "Join [] sep = []"
| "Join [x] sep = x"
| "Join (x # y # ys) sep = x @ sep @ Join (y # ys) sep"

text \<open>\<open>strings.HasSuffix(s, suffix)\<close>.\<close>

definition HasSuffix :: "string \<Rightarrow> string \<Rightarrow> bool" where
  "HasSuffix s suf =
     (length suf \<le> length s \<and> drop (length s - length suf) s = suf)"

text \<open>
  \<open>strings.Title(s)\<close> on ASCII text: a letter is mapped to its title case when the byte
  before it is a separator (the start of the string counts as one). ASCII letters, digits
  and the underscore are no separators, every other ASCII byte is. Bytes from \<open>0x80\<close> on
  belong to multi-byte runes, whose Unicode classes are not modelled: they are kept and
  do not separate.
\<close>

definition isSeparator :: "char \<Rightarrow> bool" where
  "isSeparator r =
     (if r \<le> CHR 0x7F then
        \<not> ((CHR ''0'' \<le> r \<and> r \<le> CHR ''9'') \<or> (CHR ''a'' \<le> r \<and> r \<le> CHR ''z'')
           \<or> (CHR ''A'' \<le> r \<and> r \<le> CHR ''Z'') \<or> r = CHR ''_'')
      else False)"

definition ToTitle :: "char \<Rightarrow> char" where
  "ToTitle r =
     (if CHR ''a'' \<le> r \<and> r \<le> CHR ''z'' then char_of (of_char r - (32 :: nat)) else r)"

fun title_from :: "char \<Rightarrow> string \<Rightarrow> string" where
  "title_from prev [] = []"
| "title_from prev (r # rs) = (if isSeparator prev then ToTitle r else r) # title_from r rs"

definition Title :: "string \<Rightarrow> string" where
  "Title s = title_from (CHR '' '') s"

section \<open>Naming\<close>

text \<open>The loop of \<open>SnakeToGocase\<close> over the parts, with the index \<open>i\<close> and the builder
  \<open>result\<close>.\<close>

fun gocase_loop :: "nat \<Rightarrow> string list \<Rightarrow> bool \<Rightarrow> string \<Rightarrow> string" where
  "gocase_loop i [] export result = result"
| "gocase_loop i (part # parts) export result =
     gocase_loop (Suc i) parts export
       (result @ (if i = 0 \<and> \<not> export then part
                  else if part = ''id'' then ''ID''
                  else Title part))"

definition SnakeToGocase :: "string \<Rightarrow> bool \<Rightarrow> string" where
  "SnakeToGocase s export = gocase_loop 0 (Split s (CHR ''_'')) export []"

definition param :: "string \<Rightarrow> string" where
  "param s = SnakeToGocase s False"

definition field :: "string \<Rightarrow> string" where
  "field s = SnakeToGocase s True"

text \<open>\<open>StructName\<close>: \<open>tableName[:len(tableName)-1]\<close>, then the go-case of it.\<close>

definition StructName :: "string \<Rightarrow> error + string" where
  "StructName tableName =
     (case slice_to tableName (int (length tableName) - 1) of
        Inl e \<Rightarrow> Inl e
      | Inr tableName' \<Rightarrow> Inr (SnakeToGocase tableName' True))"

text \<open>\<open>ForeignKey\<close>: \<open>keyID[:len(keyID)-len("_id")]\<close>, then the go-case of it.\<close>

definition ForeignKey :: "string \<Rightarrow> error + string" where
  "ForeignKey keyID =
     (case slice_to keyID (int (length keyID) - int (length ''_id'')) of
        Inl e \<Rightarrow> Inl e
      | Inr keyID' \<Rightarrow> Inr (SnakeToGocase keyID' True))"

section \<open>Clause builders\<close>

text \<open>\<open>sortKeys\<close> collects the keys in the order the map yields them and sorts them.\<close>

definition sortKeys :: "gomap \<Rightarrow> string list" where
  "sortKeys k = sort (map fst k)"

text \<open>The loop of \<open>JoinCondition\<close>, with the flag \<open>first\<close> and the builder \<open>s\<close>.\<close>

fun condition_loop :: "string list \<Rightarrow> string \<Rightarrow> bool \<Rightarrow> string \<Rightarrow> string" where
  "condition_loop [] sep first s = s"
| "condition_loop (key # keys) sep first s =
     condition_loop keys sep False ((if \<not> first then s @ sep else s) @ key @ '' = ?'')"

definition JoinCondition :: "gomap \<Rightarrow> string \<Rightarrow> string" where
  "JoinCondition keys sep = condition_loop (sortKeys keys) sep True []"

text \<open>The loop of \<open>JoinArguments\<close>, appending to the slice \<open>s\<close>.\<close>

fun arguments_loop :: "string list \<Rightarrow> string \<Rightarrow> string list \<Rightarrow> string list" where
  "arguments_loop [] structName s = s"
| "arguments_loop (key # keys) structName s =
     arguments_loop keys structName
       (s @ [if structName = [] then SnakeToGocase key False
             else if structName = ''-'' then key
             else structName @ ''.'' @ SnakeToGocase key True])"

definition JoinArguments :: "gomap \<Rightarrow> string \<Rightarrow> string" where
  "JoinArguments keys structName = Join (arguments_loop (sortKeys keys) structName []) '', ''"

text \<open>\<open>Marks\<close> visits the map without looking at the entries: one mark for each.\<close>

fun marks_loop :: "gomap \<Rightarrow> string list \<Rightarrow> string list" where
  "marks_loop [] s = s"
| "marks_loop (kv # keys) s = marks_loop keys (s @ [''?''])"

definition Marks :: "gomap \<Rightarrow> string" where
  "Marks keys = Join (marks_loop keys []) '', ''"

section \<open>Tables and key inference\<close>

record Table =
  Name :: string
  Upsert :: bool
  Fields :: gomap
  PrimaryKeys :: gomap
  ForeignKeys :: gomap

text \<open>\<open>FieldsWithoutID\<close> copies every entry but the one of key \<open>id\<close> into a new map.\<close>

fun without_id_loop :: "gomap \<Rightarrow> gomap \<Rightarrow> gomap" where
  "without_id_loop [] res = res"
| "without_id_loop ((fld, typ) # rest) res =
     without_id_loop rest (if fld \<noteq> ''id'' then AList.update fld typ res else res)"

definition FieldsWithoutID :: "Table \<Rightarrow> gomap" where
  "FieldsWithoutID t = without_id_loop (Fields t) []"

text \<open>The table a foreign-key-shaped column would refer to:
  \<open>field[:len(field)-len("_id")] + "s"\<close>. It is only computed for a name with the suffix,
  where the slice is in range.\<close>

definition referenced :: "string \<Rightarrow> string" where
  "referenced fld = take (length fld - length ''_id'') fld @ ''s''"

text \<open>The first loop of \<open>TableFromToml\<close>, over the columns of the raw table, filling \<open>pks\<close>
  and \<open>fks\<close>.\<close>

fun keys_loop :: "TomlTables \<Rightarrow> TomlTable \<Rightarrow> gomap \<times> gomap \<Rightarrow> gomap \<times> gomap" where
  "keys_loop tables [] (pks, fks) = (pks, fks)"
| "keys_loop tables ((fld, typ) # t) (pks, fks) =
     (if HasSuffix fld ''_id'' then
        (case map_of tables (referenced fld) of
           Some other \<Rightarrow> keys_loop tables t (AList.update fld typ pks, AList.update fld typ fks)
         | None \<Rightarrow> keys_loop tables t (pks, fks))
      else keys_loop tables t (pks, fks))"

definition TableFromToml :: "TomlTables \<Rightarrow> string \<Rightarrow> TomlTable \<Rightarrow> Table" where
  "TableFromToml tables name t =
     (case keys_loop tables t ([], []) of
        (pks, fks) \<Rightarrow>
          (case map_of t ''id'' of
             Some v \<Rightarrow>
               \<lparr>Name = name, Upsert = \<not> (v = ''int''), Fields = t,
                PrimaryKeys = [(''id'', v)], ForeignKeys = fks\<rparr>
           | None \<Rightarrow>
               \<lparr>Name = name, Upsert = True, Fields = t,
                PrimaryKeys = pks, ForeignKeys = fks\<rparr>))"

section \<open>Templates\<close>

text \<open>
  The templates are executed by Go's \<open>text/template\<close>. What it does with them is written
  out here as functions from the table to the text: literal text is copied, with the white
  space next to a trim marker removed; a comment or an assignment writes nothing; \<open>range\<close>
  over a map visits the entries in the sorted order of the keys; \<open>index\<close> of a map at a key
  it does not have is the empty string; a function that panics stops the execution with
  an error. The text written before an error is not kept in the model.
\<close>

definition range_map :: "gomap \<Rightarrow> (string \<times> string) list" where
  "range_map m = sort_key fst m"

definition index_map :: "gomap \<Rightarrow> string \<Rightarrow> string" where
  "index_map m k = (case map_of m k of Some v \<Rightarrow> v | None \<Rightarrow> [])"

text \<open>The SQL statements and argument lists inside the generated methods.\<close>

definition select_by_key :: "Table \<Rightarrow> string" where
  "select_by_key t =
     ''SELECT * FROM '' @ Name t @ '' WHERE '' @ JoinCondition (PrimaryKeys t) '' AND ''"

definition select_by_fk :: "Table \<Rightarrow> string \<Rightarrow> string" where
  "select_by_fk t fk =
     ''SELECT * FROM '' @ Name t @ '' WHERE '' @ fk @ '' = ?''"

definition delete_stmt :: "Table \<Rightarrow> string" where
  "delete_stmt t =
     ''DELETE FROM '' @ Name t @ '' WHERE '' @ JoinCondition (PrimaryKeys t) '' AND ''"

definition upsert_stmt :: "Table \<Rightarrow> string" where
  "upsert_stmt t =
     ''INSERT INTO '' @ Name t @ ''('' @ JoinArguments (Fields t) ''-'' @ '') VALUES ('' @
     Marks (Fields t) @ '') ON CONFLICT ('' @ JoinArguments (PrimaryKeys t) ''-'' @
     '') DO UPDATE SET '' @ JoinCondition (Fields t) '', ''"

definition upsert_args :: "Table \<Rightarrow> string" where
  "upsert_args t =
     JoinArguments (Fields t) ''r'' @ '', '' @ JoinArguments (Fields t) ''r''"

definition insert_stmt :: "Table \<Rightarrow> gomap \<Rightarrow> string" where
  "insert_stmt t flds =
     ''INSERT INTO '' @ Name t @ ''('' @ JoinArguments flds ''-'' @ '') VALUES ('' @
     Marks flds @ '')''"

definition update_stmt :: "Table \<Rightarrow> string" where
  "update_stmt t =
     ''UPDATE '' @ Name t @ '' SET '' @ JoinCondition (Fields t) '', '' @ '' WHERE '' @
     JoinCondition (PrimaryKeys t) '' AND ''"

definition update_args :: "Table \<Rightarrow> string" where
  "update_args t =
     JoinArguments (Fields t) ''r'' @ '', '' @ JoinArguments (PrimaryKeys t) ''r''"

definition upsert_exec :: "Table \<Rightarrow> string" where
  \<open>upsert_exec t =
     ''    _, err := db.Exec("'' @ upsert_stmt t @ ''",\<newline>'' @
     ''                        '' @ upsert_args t @ '')\<newline>''\<close>

definition UpsertTemplate :: "Table \<Rightarrow> error + string" where
  \<open>UpsertTemplate t =
     (case StructName (Name t) of
        Inl e \<Rightarrow> Inl e
      | Inr name \<Rightarrow>
          Inr (''\<newline>'' @ ''\<newline>'' @ ''\<newline>'' @
               ''// Write writes the change to the Database. This happens as an UPSERT statement.\<newline>'' @
               ''func (r *'' @ name @ '') Write(db db.DBContext) error {\<newline>'' @
               ''    if err := r.Verify(); err != nil {\<newline>'' @
               ''        return err\<newline>'' @ ''    }\<newline>'' @ upsert_exec t @
               ''    return errors.WithStack(err)\<newline>'' @ ''}\<newline>''))\<close>

definition insert_branch :: "Table \<Rightarrow> string" where
  \<open>insert_branch t =
     (if index_map (Fields t) ''id'' = ''int'' then
        (let flds = FieldsWithoutID t
         in ''\<newline>'' @ ''    if r.ID == 0 {\<newline>'' @ ''        '' @
            ''\<newline>'' @ ''        res, err := db.Exec("'' @ insert_stmt t flds @
            ''", '' @ JoinArguments flds ''r'' @ '')\<newline>'' @
            ''        if err != nil {\<newline>'' @
            ''            return errors.WithStack(err)\<newline>'' @
            ''        }\<newline>'' @ ''        id, err := res.LastInsertId()\<newline>'' @
            ''        if err != nil {\<newline>'' @
            ''            return errors.WithStack(err)\<newline>'' @
            ''        }\<newline>'' @ ''        r.ID = int(id)\<newline>'' @
            ''        return nil\<newline>'' @ ''    }\<newline>'' @ ''    '')
      else [])\<close>

definition UpdateOrInsertTemplate :: "Table \<Rightarrow> error + string" where
  \<open>UpdateOrInsertTemplate t =
     (case StructName (Name t) of
        Inl e \<Rightarrow> Inl e
      | Inr name \<Rightarrow>
          Inr (''\<newline>'' @ ''\<newline>'' @ ''\<newline>'' @
               ''// Write writes the change to the Database.\<newline>'' @
               ''// If the ID of the '' @ name @
               '' is 0, then an INSERT is performed. Else, an UPDATE is triggered.\<newline>'' @
               ''func (r *'' @ name @ '') Write(db db.DBContext) error {\<newline>'' @
               ''    if err := r.Verify(); err != nil {\<newline>'' @
               ''        return err\<newline>'' @ ''    }\<newline>'' @ ''    '' @
               insert_branch t @ ''\<newline>'' @ ''    _, err := db.Exec("'' @
               update_stmt t @ ''",\<newline>'' @ ''                      '' @
               update_args t @ '')\<newline>'' @
               ''    return errors.WithStack(err)\<newline>'' @ ''}\<newline>''))\<close>

definition field_line :: "string \<times> string \<Rightarrow> string" where
  \<open>field_line =
     (\<lambda>(fld, typ).
        ''\<newline>'' @ ''    '' @ field fld @ '' '' @ typ @ '' '' @ ''`'' @ ''db:"'' @
        fld @ ''"'' @ ''`'')\<close>

definition struct_decl :: "Table \<Rightarrow> string \<Rightarrow> string" where
  \<open>struct_decl t name =
     ''\<newline>'' @ ''// '' @ name @ '' is the struct generated from table "'' @ Name t @
     ''".\<newline>'' @ ''type '' @ name @ '' struct {'' @
     concat (map field_line (range_map (Fields t))) @ ''\<newline>'' @ ''}\<newline>'' @
     ''\<newline>''\<close>

definition key_param :: "string \<times> string \<Rightarrow> string" where
  "key_param = (\<lambda>(fld, typ). '', '' @ param fld @ '' '' @ typ)"

definition key_query :: "Table \<Rightarrow> string" where
  \<open>key_query t =
     ''    if err := db.Get(&result, "'' @ select_by_key t @ ''", '' @
     JoinArguments (PrimaryKeys t) [] @ ''); err != nil {\<newline>''\<close>

definition key_getter :: "Table \<Rightarrow> string \<Rightarrow> string" where
  \<open>key_getter t name =
     (let fn_name = ''Get'' @ name
      in ''\<newline>'' @ ''// '' @ fn_name @ '' gets a '' @ name @
         '' from the Database.\<newline>'' @ ''func '' @ fn_name @ ''(db db.DBContext'' @
         concat (map key_param (range_map (PrimaryKeys t))) @ '') ('' @ ''*'' @ name @
         '', error) {\<newline>'' @ ''    var result '' @ name @ ''\<newline>'' @
         key_query t @ ''        return nil, errors.WithStack(err)\<newline>'' @
         ''    }\<newline>'' @ ''    return &result, nil\<newline>'' @ ''}\<newline>'' @
         ''\<newline>'')\<close>

definition fk_signature :: "string \<Rightarrow> string \<Rightarrow> string \<Rightarrow> string \<Rightarrow> string" where
  "fk_signature fn_name name fk fktype =
     ''func '' @ fn_name @ ''(db db.DBContext, '' @ param fk @ '' '' @ fktype @
     '') ([]*'' @ name @ '', error) {''"

definition fk_getter :: "Table \<Rightarrow> string \<Rightarrow> string \<times> string \<Rightarrow> error + string" where
  \<open>fk_getter t name =
     (\<lambda>(fk, fktype).
        case ForeignKey fk of
          Inl e \<Rightarrow> Inl e
        | Inr rel \<Rightarrow>
            (let fn_name = ''Get'' @ rel @ name @ ''s''
             in Inr (''\<newline>'' @ ''\<newline>'' @ ''// '' @ fn_name @
                     '' gets a list of '' @ name @ '' belonging to a '' @ rel @
                     ''.\<newline>'' @ fk_signature fn_name name fk fktype @
                     ''\<newline>'' @ ''    var result []*'' @ name @ ''\<newline>'' @
                     ''    if err := db.Select(&result, "'' @ select_by_fk t fk @ ''", '' @
                     param fk @ ''); err != nil {\<newline>'' @
                     ''        return nil, errors.WithStack(err)\<newline>'' @
                     ''    }\<newline>'' @ ''    return result, nil\<newline>'' @
                     ''}\<newline>'' @ ''\<newline>'')))\<close>

definition delete_method :: "Table \<Rightarrow> string \<Rightarrow> string" where
  \<open>delete_method t name =
     ''\<newline>'' @ ''// Delete deletes the '' @ name @
     '' from the Database.\<newline>'' @ ''func (r *'' @ name @
     '') Delete(db db.DBContext) error {\<newline>'' @ ''    _, err := db.Exec("'' @
     delete_stmt t @ ''", '' @ JoinArguments (PrimaryKeys t) ''r'' @ '')\<newline>'' @
     ''    return errors.WithStack(err)\<newline>'' @ ''}\<newline>''\<close>

definition file_header :: string where
  \<open>file_header =
     ''\<newline>'' @
     ''// Generated by "git.nkagami.me/natsukagami/kjudge/models/generate". DO NOT EDIT.\<newline>'' @
     ''\<newline>'' @ ''package models\<newline>'' @ ''\<newline>'' @
     ''import (\<newline>'' @ ''    "database/sql"\<newline>'' @
     ''    "github.com/pkg/errors"\<newline>'' @
     ''    "git.nkagami.me/natsukagami/kjudge/db"\<newline>'' @ '')\<newline>'' @
     ''\<newline>''\<close>

text \<open>The body of \<open>range $fk, $fktype := .ForeignKeys\<close>, entry after entry.\<close>

fun range_fks :: "Table \<Rightarrow> string \<Rightarrow> (string \<times> string) list \<Rightarrow> error + string" where
  "range_fks t name [] = Inr []"
| "range_fks t name (kv # kvs) =
     (case fk_getter t name kv of
        Inl e \<Rightarrow> Inl e
      | Inr s \<Rightarrow> (case range_fks t name kvs of Inl e \<Rightarrow> Inl e | Inr ss \<Rightarrow> Inr (s @ ss)))"

text \<open>\<open>if .Upsert\<close>: one of the two write templates.\<close>

definition write_method :: "Table \<Rightarrow> error + string" where
  "write_method t =
     (if Upsert t then
        (case UpsertTemplate t of
           Inl e \<Rightarrow> Inl e
         | Inr s \<Rightarrow> Inr (''\<newline>'' @ s @ ''\<newline>''))
      else
        (case UpdateOrInsertTemplate t of
           Inl e \<Rightarrow> Inl e
         | Inr s \<Rightarrow> Inr (''\<newline>'' @ s @ ''\<newline>'')))"

definition TableTemplate :: "Table \<Rightarrow> error + string" where
  "TableTemplate t =
     (case StructName (Name t) of
        Inl e \<Rightarrow> Inl e
      | Inr name \<Rightarrow>
          (case range_fks t name (range_map (ForeignKeys t)) of
             Inl e \<Rightarrow> Inl e
           | Inr getters \<Rightarrow>
               (case write_method t of
                  Inl e \<Rightarrow> Inl e
                | Inr write \<Rightarrow>
                    Inr (''\<newline>'' @ ''\<newline>'' @ struct_decl t name @ ''\<newline>'' @
                         key_getter t name @ ''\<newline>'' @ getters @ ''\<newline>'' @
                         ''\<newline>'' @ ''\<newline>'' @ write @ ''\<newline>'' @ ''\<newline>'' @
                         delete_method t name))))"

definition FileTemplate :: "Table \<Rightarrow> error + string" where
  "FileTemplate t =
     (case TableTemplate t of
        Inl e \<Rightarrow> Inl e
      | Inr table \<Rightarrow> Inr (file_header @ table @ ''\<newline>''))"

text \<open>\<open>t.Execute(f, table)\<close> runs the template \<open>main\<close>, which is \<open>FileTemplate\<close>.\<close>

definition Execute :: "Table \<Rightarrow> error + string" where
  "Execute table = FileTemplate table"

section \<open>The driver\<close>

text \<open>
  \<open>main\<close> works on the file system and runs \<open>go fmt\<close> and \<open>goimports\<close>. Whether such a
  step succeeds on a file is given by the environment. \<open>log.Fatal\<close> prints the error and
  ends the program with exit code 1, so the loop stops there. The model starts after the
  schema has been decoded; the loop visits the tables in the order of the list.
\<close>

datatype step = Create | Write | Close | GoFmt | GoImports

type_synonym env = "step \<Rightarrow> string \<Rightarrow> bool"

record run =
  created :: "string list"
  written :: "(string \<times> string) list"
  generated :: "string list"
  exit_code :: nat

definition Fatal :: "run \<Rightarrow> run" where
  "Fatal r = r\<lparr>exit_code := 1\<rparr>"

definition filename_of :: "string \<Rightarrow> string" where
  "filename_of name = ''models/'' @ name @ ''_generated.go''"

fun main_loop :: "env \<Rightarrow> TomlTables \<Rightarrow> TomlTables \<Rightarrow> run \<Rightarrow> run" where
  "main_loop env tables [] r = r"
| "main_loop env tables ((name, flds) # rest) r =
     (let table = TableFromToml tables name flds;
          filename = filename_of name
      in if \<not> env Create filename then Fatal r
         else
           (let r1 = r\<lparr>created := created r @ [filename]\<rparr>
            in case Execute table of
                 Inl e \<Rightarrow> Fatal r1
               | Inr text \<Rightarrow>
                   if \<not> env Write filename then Fatal r1
                   else
                     (let r2 = r1\<lparr>written := written r1 @ [(filename, text)]\<rparr>
                      in if \<not> env Close filename then Fatal r2
                         else if \<not> env GoFmt filename then Fatal r2
                         else if \<not> env GoImports filename then Fatal r2
                         else main_loop env tables rest
                                (r2\<lparr>generated := generated r2 @ [name]\<rparr>))))"

definition main :: "env \<Rightarrow> TomlTables \<Rightarrow> run" where
  "main env tables =
     main_loop env tables tables
       \<lparr>created = [], written = [], generated = [], exit_code = 0\<rparr>"

text \<open>The environment in which every step succeeds.\<close>

definition all_succeed :: env where
  "all_succeed = (\<lambda>s f. True)"

section \<open>Auxiliary notions for the statements\<close>

text \<open>The columns that the first loop of \<open>TableFromToml\<close> keeps: the name ends in \<open>_id\<close> and
  the table it would refer to is a key of the schema.\<close>

definition fk_shaped :: "TomlTables \<Rightarrow> string \<times> string \<Rightarrow> bool" where
  "fk_shaped tables = (\<lambda>(c, ty). HasSuffix c ''_id'' \<and> map_of tables (referenced c) \<noteq> None)"

text \<open>Two tables that differ only in the iteration order of their maps.\<close>

definition same_table :: "Table \<Rightarrow> Table \<Rightarrow> bool" where
  "same_table a b =
     (Name a = Name b \<and> Upsert a = Upsert b \<and> same_map (Fields a) (Fields b)
      \<and> same_map (PrimaryKeys a) (PrimaryKeys b) \<and> same_map (ForeignKeys a) (ForeignKeys b))"

text \<open>Two decodings of one schema: the same table names, and under each name the same
  columns, in any order.\<close>

definition same_schema :: "TomlTables \<Rightarrow> TomlTables \<Rightarrow> bool" where
  "same_schema s s' =
     (wf_map s \<and> wf_map s' \<and> set (map fst s) = set (map fst s')
      \<and> list_all (\<lambda>(n, t). list_all (\<lambda>(n', t'). n \<noteq> n' \<or> same_map t t') s') s)"

text \<open>The schemas of the specification's scenarios.\<close>

definition posts_columns :: TomlTable where
  "posts_columns = [(''id'', ''int''), (''user_id'', ''int''), (''body'', ''text'')]"

definition blog_schema :: TomlTables where
  "blog_schema = [(''posts'', posts_columns), (''users'', [(''id'', ''int'')])]"

definition users_columns :: TomlTable where
  "users_columns = [(''id'', ''text''), (''name'', ''text'')]"

definition users_schema :: TomlTables where
  "users_schema = [(''users'', users_columns)]"

definition enrollments_columns :: TomlTable where
  "enrollments_columns = [(''user_id'', ''int''), (''course_id'', ''int'')]"

definition school_schema :: TomlTables where
  "school_schema =
     [(''enrollments'', enrollments_columns), (''users'', [(''id'', ''int'')]),
      (''courses'', [(''id'', ''int'')])]"

text \<open>A table without \<open>id\<close> and without a column that refers to another table.\<close>

definition logs_columns :: TomlTable where
  "logs_columns = [(''message'', ''text'')]"

definition logs_schema :: TomlTables where
  "logs_schema = [(''logs'', logs_columns)]"

text \<open>A schema whose first table has the empty name (a quoted empty key), followed by an
  ordinary table.\<close>

definition unnamed_schema :: TomlTables where
  "unnamed_schema = [([], [(''id'', ''int'')]), (''users'', [(''id'', ''int'')])]"

text \<open>The same schema with the tables and the columns of \<open>posts\<close> in another order.\<close>

definition blog_schema_permuted :: TomlTables where
  "blog_schema_permuted =
     [(''users'', [(''id'', ''int'')]),
      (''posts'', [(''body'', ''text''), (''user_id'', ''int''), (''id'', ''int'')])]"

text \<open>A text given line by line, each line ended by a newline.\<close>

definition unlines :: "string list \<Rightarrow> string" where
  "unlines ls = concat (map (\<lambda>l. l @ [CHR 0x0A]) ls)"

text \<open>The file for \<open>posts\<close> of \<open>blog_schema\<close>, as the templates give it before \<open>go fmt\<close>.\<close>

definition posts_file :: "string list" where
  \<open>posts_file =
     [[],
      ''// Generated by "git.nkagami.me/natsukagami/kjudge/models/generate". DO NOT EDIT.'',
      [],
      ''package models'',
      [],
      ''import ('',
      ''    "database/sql"'',
      ''    "github.com/pkg/errors"'',
      ''    "git.nkagami.me/natsukagami/kjudge/db"'',
      '')'',
      [],
      [],
      [],
      [],
      ''// Post is the struct generated from table "posts".'',
      ''type Post struct {'',
      ''    Body text `db:"body"`'',
      ''    ID int `db:"id"`'',
      ''    UserID int `db:"user_id"`'',
      ''}'',
      [],
      [],
      [],
      ''// GetPost gets a Post from the Database.'',
      ''func GetPost(db db.DBContext, id int) ('' @ ''*Post, error) {'',
      ''    var result Post'',
      ''    if err := db.Get(&result, "SELECT * FROM posts WHERE id = ?", id); err != nil {'',
      ''        return nil, errors.WithStack(err)'',
      ''    }'',
      ''    return &result, nil'',
      ''}'',
      [],
      [],
      [],
      [],
      ''// GetUserPosts gets a list of Post belonging to a User.'',
      ''func GetUserPosts(db db.DBContext, userID int) ([]*Post, error) {'',
      ''    var result []*Post'',
      ''    if err := db.Select(&result, "SELECT * FROM posts WHERE user_id = ?", userID); err != nil {'',
      ''        return nil, errors.WithStack(err)'',
      ''    }'',
      ''    return result, nil'',
      ''}'',
      [],
      [],
      [],
      [],
      [],
      [],
      [],
      [],
      ''// Write writes the change to the Database.'',
      ''// If the ID of the Post is 0, then an INSERT is performed. Else, an UPDATE is triggered.'',
      ''func (r *Post) Write(db db.DBContext) error {'',
      ''    if err := r.Verify(); err != nil {'',
      ''        return err'',
      ''    }'',
      ''    '',
      ''    if r.ID == 0 {'',
      ''        '',
      ''        res, err := db.Exec("INSERT INTO posts(body, user_id) VALUES (?, ?)", r.Body, r.UserID)'',
      ''        if err != nil {'',
      ''            return errors.WithStack(err)'',
      ''        }'',
      ''        id, err := res.LastInsertId()'',
      ''        if err != nil {'',
      ''            return errors.WithStack(err)'',
      ''        }'',
      ''        r.ID = int(id)'',
      ''        return nil'',
      ''    }'',
      ''    '',
      ''    _, err := db.Exec("UPDATE posts SET body = ?, id = ?, user_id = ? WHERE id = ?",'',
      ''                      r.Body, r.ID, r.UserID, r.ID)'',
      ''    return errors.WithStack(err)'',
      ''}'',
      [],
      [],
      [],
      [],
      ''// Delete deletes the Post from the Database.'',
      ''func (r *Post) Delete(db db.DBContext) error {'',
      ''    _, err := db.Exec("DELETE FROM posts WHERE id = ?", r.ID)'',
      ''    return errors.WithStack(err)'',
      ''}'',
      []]\<close>

text \<open>The file that a run without failure writes for an entry of the schema.\<close>

definition file_of :: "TomlTables \<Rightarrow> string \<times> TomlTable \<Rightarrow> string \<times> string" where
  "file_of tables = (\<lambda>(name, t). (filename_of name, projr (Execute (TableFromToml tables name t))))"

section \<open>Properties of the library functions and the loops\<close>

lemma Split_not_Nil: "Split s c \<noteq> []"
  by (induction s) (auto split: list.splits)

lemma Join_Cons: "Join (x # xs) sep = x @ concat (map (\<lambda>y. sep @ y) xs)"
  by (induction xs arbitrary: x) auto

lemma Join_Split: "Join (Split s c) [c] = s"
proof (induction s)
  case Nil
  show ?case by simp
next
  case (Cons a s)
  obtain p ps where ps: "Split s c = p # ps"
    using Split_not_Nil [of s c] by (cases "Split s c") auto
  with Cons show ?case by (auto simp: Join_Cons)
qed

lemma Split_no_sep: "p \<in> set (Split s c) \<Longrightarrow> c \<notin> set p"
proof (induction s arbitrary: p)
  case Nil
  then show ?case by simp
next
  case (Cons a s)
  then show ?case by (auto split: if_splits list.splits)
qed

lemma gocase_loop_Suc:
  "gocase_loop (Suc i) parts export result = result @ concat (map (\<lambda>part. if part = ''id'' then ''ID'' else Title part) parts)"
  by (induction parts arbitrary: i result) auto

lemma gocase_loop_0:
  "gocase_loop 0 (p # ps) export result =
     result @ (if \<not> export then p else if p = ''id'' then ''ID'' else Title p) @ concat (map (\<lambda>part. if part = ''id'' then ''ID'' else Title part) ps)"
  by (simp add: gocase_loop_Suc)

lemma condition_loop_False:
  "condition_loop keys sep False s = s @ concat (map (\<lambda>key. sep @ key @ '' = ?'') keys)"
  by (induction keys arbitrary: s) auto

lemma condition_loop_Join:
  "condition_loop keys sep True [] = Join (map (\<lambda>key. key @ '' = ?'') keys) sep"
  by (cases keys) (simp_all add: condition_loop_False Join_Cons comp_def)

lemma arguments_loop_map:
  "arguments_loop keys structName s =
     s @ map (\<lambda>key. if structName = [] then SnakeToGocase key False
             else if structName = ''-'' then key
             else structName @ ''.'' @ SnakeToGocase key True) keys"
  by (induction keys arbitrary: s) auto

lemma marks_loop_replicate: "marks_loop keys s = s @ replicate (length keys) ''?''"
  by (induction keys arbitrary: s) (auto simp: replicate_append_same)

section \<open>Maps in two iteration orders\<close>

lemma same_map_sym: "same_map a b \<Longrightarrow> same_map b a"
  by (auto simp: same_map_def)

lemma same_map_length: "same_map a b \<Longrightarrow> length a = length b"
proof -
  assume h: "same_map a b"
  then have "distinct a" "distinct b" 
    by (auto simp: same_map_def wf_map_def distinct_map)
  with h show ?thesis unfolding same_map_def
    by (metis distinct_card)
qed

lemma same_map_keys: "same_map a b \<Longrightarrow> set (map fst a) = set (map fst b)"
  by (auto simp: same_map_def)

lemma sortKeys_same: "same_map a b \<Longrightarrow> sortKeys a = sortKeys b"
  unfolding sortKeys_def
  by (rule sorted_distinct_set_unique)
     (auto simp: same_map_def wf_map_def)

lemma range_map_same: "same_map a b \<Longrightarrow> range_map a = range_map b"
  unfolding range_map_def
proof (rule map_sorted_distinct_set_unique [where f = fst])
  assume h: "same_map a b"
  then show "inj_on fst (set (sort_key fst a) \<union> set (sort_key fst b))"
    by (auto simp: same_map_def wf_map_def distinct_map)
  show "sorted (map fst (sort_key fst a))" "sorted (map fst (sort_key fst b))" by simp_all
  from h show "distinct (map fst (sort_key fst a))" "distinct (map fst (sort_key fst b))"
    by (auto simp: same_map_def wf_map_def distinct_map inj_on_def)
  from h show "set (sort_key fst a) = set (sort_key fst b)"
    by (auto simp: same_map_def)
qed

lemma same_map_map_of: "same_map a b \<Longrightarrow> map_of a = map_of b"
  by (auto simp: same_map_def wf_map_def intro!: map_of_inject_set [THEN iffD2])

section \<open>Key inference\<close>

lemma HasSuffix_iff: "HasSuffix s suf \<longleftrightarrow> (\<exists>b. s = b @ suf)"
proof
  assume "HasSuffix s suf"
  then have "s = take (length s - length suf) s @ suf"
    unfolding HasSuffix_def by (metis append_take_drop_id)
  then show "\<exists>b. s = b @ suf" ..
next
  assume "\<exists>b. s = b @ suf"
  then show "HasSuffix s suf" by (auto simp: HasSuffix_def)
qed

lemma referenced_append: "referenced (b @ ''_id'') = b @ ''s''"
  by (simp add: referenced_def)

lemma fk_shaped_iff:
  "fk_shaped tables (c, ty) \<longleftrightarrow> (\<exists>b. c = b @ ''_id'' \<and> b @ ''s'' \<in> fst ` set tables)"
proof -
  have dom: "map_of tables k \<noteq> None \<longleftrightarrow> k \<in> fst ` set tables" for k
    by (simp add: map_of_eq_None_iff)
  show ?thesis
    unfolding fk_shaped_def prod.case HasSuffix_iff dom
    by (metis referenced_append)
qed

lemma update_fresh: "k \<notin> fst ` set al \<Longrightarrow> AList.update k v al = al @ [(k, v)]"
  by (induction al) auto

lemma keys_loop_filter:
  "distinct (map fst acc1 @ map fst t) \<Longrightarrow> distinct (map fst acc2 @ map fst t) \<Longrightarrow>
   keys_loop tables t (acc1, acc2) = (acc1 @ filter (fk_shaped tables) t, acc2 @ filter (fk_shaped tables) t)"
proof (induction t arbitrary: acc1 acc2)
  case Nil
  then show ?case by simp
next
  case (Cons a t)
  obtain c ty where a: "a = (c, ty)" by (cases a)
  show ?case
  proof (cases "fk_shaped tables (c, ty)")
    case True
    from Cons.prems a have fresh: "c \<notin> fst ` set acc1" "c \<notin> fst ` set acc2" by auto
    from Cons.prems a have d: "distinct (map fst (acc1 @ [(c, ty)]) @ map fst t)"
      "distinct (map fst (acc2 @ [(c, ty)]) @ map fst t)" by auto
    from True have "keys_loop tables (a # t) (acc1, acc2) =
        keys_loop tables t (acc1 @ [(c, ty)], acc2 @ [(c, ty)])"
      using a fresh by (auto simp: fk_shaped_def update_fresh split: option.splits)
    also have "\<dots> = ((acc1 @ [(c, ty)]) @ filter (fk_shaped tables) t, (acc2 @ [(c, ty)]) @ filter (fk_shaped tables) t)"
      using d by (rule Cons.IH)
    finally show ?thesis using True a by simp
  next
    case False
    from Cons.prems have d: "distinct (map fst acc1 @ map fst t)" "distinct (map fst acc2 @ map fst t)"
      by auto
    from False have "keys_loop tables (a # t) (acc1, acc2) = keys_loop tables t (acc1, acc2)"
      using a by (auto simp: fk_shaped_def split: option.splits)
    with Cons.IH [OF d] False a show ?thesis by simp
  qed
qed

lemma keys_loop_wf:
  "wf_map t \<Longrightarrow> keys_loop tables t ([], []) = (filter (fk_shaped tables) t, filter (fk_shaped tables) t)"
  using keys_loop_filter [of "[]" t "[]" tables] by (simp add: wf_map_def)

lemma wf_map_filter: "wf_map t \<Longrightarrow> wf_map (filter P t)"
  by (simp add: wf_map_def distinct_map_filter)

section \<open>The templates do not depend on the iteration order\<close>

lemma JoinCondition_Join:
  "JoinCondition k sep = Join (map (\<lambda>c. c @ '' = ?'') (sortKeys k)) sep"
  by (simp add: JoinCondition_def condition_loop_Join)

lemma JoinArguments_Join:
  "JoinArguments k sn =
     Join (map (\<lambda>c. if sn = [] then SnakeToGocase c False
                    else if sn = ''-'' then c
                    else sn @ ''.'' @ SnakeToGocase c True) (sortKeys k)) '', ''"
  by (simp add: JoinArguments_def arguments_loop_map)

lemma Marks_Join: "Marks k = Join (replicate (length k) ''?'') '', ''"
  by (simp add: Marks_def marks_loop_replicate)

lemma JoinCondition_same: "same_map a b \<Longrightarrow> JoinCondition a sep = JoinCondition b sep"
  by (simp add: JoinCondition_def sortKeys_same)

lemma JoinArguments_same: "same_map a b \<Longrightarrow> JoinArguments a sn = JoinArguments b sn"
  by (simp add: JoinArguments_def sortKeys_same)

lemma Marks_same: "same_map a b \<Longrightarrow> Marks a = Marks b"
  by (simp add: Marks_Join same_map_length)

lemma index_map_same: "same_map a b \<Longrightarrow> index_map a k = index_map b k"
  by (simp add: index_map_def same_map_map_of)

lemma without_id_loop_filter:
  "distinct (map fst acc @ map fst t) \<Longrightarrow>
   without_id_loop t acc = acc @ filter (\<lambda>(fld, typ). fld \<noteq> ''id'') t"
proof (induction t arbitrary: acc)
  case Nil
  then show ?case by simp
next
  case (Cons a t)
  obtain c ty where a: "a = (c, ty)" by (cases a)
  show ?case
  proof (cases "c = ''id''")
    case True
    from Cons.prems have "distinct (map fst acc @ map fst t)" by auto
    from Cons.IH [OF this] True a show ?thesis by simp
  next
    case False
    from Cons.prems a have fresh: "c \<notin> fst ` set acc" by auto
    from Cons.prems a have "distinct (map fst (acc @ [(c, ty)]) @ map fst t)" by auto
    from Cons.IH [OF this] False a fresh show ?thesis by (simp add: update_fresh)
  qed
qed

lemma FieldsWithoutID_filter:
  "wf_map (Fields t) \<Longrightarrow> FieldsWithoutID t = filter (\<lambda>(fld, typ). fld \<noteq> ''id'') (Fields t)"
  using without_id_loop_filter [of "[]" "Fields t"] by (simp add: FieldsWithoutID_def wf_map_def)

lemma same_map_filter: "same_map a b \<Longrightarrow> same_map (filter P a) (filter P b)"
  by (auto simp: same_map_def wf_map_filter)

lemma same_map_refl: "wf_map a \<Longrightarrow> same_map a a"
  by (simp add: same_map_def)

lemma FieldsWithoutID_same:
  assumes "same_map (Fields a) (Fields b)"
  shows "same_map (FieldsWithoutID a) (FieldsWithoutID b)"
proof -
  from assms have "wf_map (Fields a)" "wf_map (Fields b)" by (simp_all add: same_map_def)
  then show ?thesis
    using same_map_filter [OF assms] by (simp add: FieldsWithoutID_filter)
qed

lemma same_table_obs:
  assumes "same_table a b"
  shows "Name a = Name b" and "Upsert a = Upsert b"
    and "JoinCondition (Fields a) = JoinCondition (Fields b)"
    and "JoinCondition (PrimaryKeys a) = JoinCondition (PrimaryKeys b)"
    and "JoinArguments (Fields a) = JoinArguments (Fields b)"
    and "JoinArguments (PrimaryKeys a) = JoinArguments (PrimaryKeys b)"
    and "Marks (Fields a) = Marks (Fields b)"
    and "range_map (Fields a) = range_map (Fields b)"
    and "range_map (PrimaryKeys a) = range_map (PrimaryKeys b)"
    and "range_map (ForeignKeys a) = range_map (ForeignKeys b)"
    and "index_map (Fields a) = index_map (Fields b)"
    and "JoinArguments (FieldsWithoutID a) = JoinArguments (FieldsWithoutID b)"
    and "Marks (FieldsWithoutID a) = Marks (FieldsWithoutID b)"
proof -
  from assms have f: "same_map (Fields a) (Fields b)"
    and p: "same_map (PrimaryKeys a) (PrimaryKeys b)"
    and k: "same_map (ForeignKeys a) (ForeignKeys b)"
    by (simp_all add: same_table_def)
  from f have w: "same_map (FieldsWithoutID a) (FieldsWithoutID b)"
    by (rule FieldsWithoutID_same)
  from assms show "Name a = Name b" "Upsert a = Upsert b" by (simp_all add: same_table_def)
  show "JoinCondition (Fields a) = JoinCondition (Fields b)"
    "JoinArguments (Fields a) = JoinArguments (Fields b)"
    "index_map (Fields a) = index_map (Fields b)"
    using f by (auto simp: fun_eq_iff intro: JoinCondition_same JoinArguments_same index_map_same)
  show "JoinCondition (PrimaryKeys a) = JoinCondition (PrimaryKeys b)"
    "JoinArguments (PrimaryKeys a) = JoinArguments (PrimaryKeys b)"
    using p by (auto simp: fun_eq_iff intro: JoinCondition_same JoinArguments_same)
  show "JoinArguments (FieldsWithoutID a) = JoinArguments (FieldsWithoutID b)"
    using w by (auto simp: fun_eq_iff intro: JoinArguments_same)
  show "Marks (Fields a) = Marks (Fields b)" using f by (rule Marks_same)
  show "Marks (FieldsWithoutID a) = Marks (FieldsWithoutID b)" using w by (rule Marks_same)
  show "range_map (Fields a) = range_map (Fields b)" using f by (rule range_map_same)
  show "range_map (PrimaryKeys a) = range_map (PrimaryKeys b)" using p by (rule range_map_same)
  show "range_map (ForeignKeys a) = range_map (ForeignKeys b)" using k by (rule range_map_same)
qed

lemma fk_getter_same:
  assumes "same_table a b"
  shows "fk_getter a name = fk_getter b name"
  unfolding fk_getter_def select_by_fk_def same_table_obs [OF assms] ..

lemma range_fks_same:
  assumes "same_table a b"
  shows "range_fks a name kvs = range_fks b name kvs"
  by (induction kvs) (simp_all only: range_fks.simps fk_getter_same [OF assms])

lemma write_method_same:
  assumes "same_table a b"
  shows "write_method a = write_method b"
  unfolding write_method_def UpsertTemplate_def UpdateOrInsertTemplate_def insert_branch_def
    upsert_exec_def upsert_stmt_def upsert_args_def insert_stmt_def update_stmt_def update_args_def Let_def
    same_table_obs [OF assms] ..

lemma TableTemplate_same:
  assumes "same_table a b"
  shows "TableTemplate a = TableTemplate b"
  unfolding TableTemplate_def struct_decl_def key_getter_def key_query_def delete_method_def
    select_by_key_def delete_stmt_def Let_def
    write_method_same [OF assms] range_fks_same [OF assms] same_table_obs [OF assms] ..

lemma Execute_same: "same_table a b \<Longrightarrow> Execute a = Execute b"
  unfolding Execute_def FileTemplate_def by (simp only: TableTemplate_same)

lemma fk_shaped_keys: "fst ` set s = fst ` set s' \<Longrightarrow> fk_shaped s = fk_shaped s'"
  by (auto simp: fun_eq_iff fk_shaped_iff)

lemma TableFromToml_wf:
  assumes "wf_map t"
  shows "TableFromToml tables name t =
     (case map_of t ''id'' of
        Some v \<Rightarrow> \<lparr>Name = name, Upsert = \<not> (v = ''int''), Fields = t,
                  PrimaryKeys = [(''id'', v)], ForeignKeys = filter (fk_shaped tables) t\<rparr>
      | None \<Rightarrow> \<lparr>Name = name, Upsert = True, Fields = t,
                 PrimaryKeys = filter (fk_shaped tables) t,
                 ForeignKeys = filter (fk_shaped tables) t\<rparr>)"
  by (simp add: TableFromToml_def keys_loop_wf [OF assms])

lemma TableFromToml_same:
  assumes "same_map t t'" and "fst ` set s = fst ` set s'"
  shows "same_table (TableFromToml s name t) (TableFromToml s' name t')"
proof -
  from assms(1) have wf: "wf_map t" "wf_map t'" by (simp_all add: same_map_def)
  have m: "map_of t ''id'' = map_of t' ''id''" using assms(1) by (simp add: same_map_map_of)
  have k: "fk_shaped s = fk_shaped s'" using assms(2) by (rule fk_shaped_keys)
  show ?thesis
    unfolding TableFromToml_wf [OF wf(1)] TableFromToml_wf [OF wf(2)] m k
    using same_map_filter [OF assms(1), of "fk_shaped s'"] assms(1)
    by (simp add: same_table_def same_map_refl wf_map_def split: option.splits)
qed

section \<open>When a template can be executed\<close>

lemma StructName_ok: "name \<noteq> [] \<Longrightarrow> StructName name = Inr (SnakeToGocase (butlast name) True)"
proof -
  assume "name \<noteq> []"
  moreover have "nat (int (length name) - 1) = length name - 1" by simp
  ultimately show ?thesis
    by (auto simp: StructName_def slice_to_def butlast_conv_take)
qed

lemma StructName_Nil: "StructName [] = Inl (SliceBoundsOutOfRange (- 1))"
  by (simp add: StructName_def slice_to_def)

lemma StructName_Inl_iff: "(\<exists>e. StructName name = Inl e) \<longleftrightarrow> name = []"
  by (cases "name = []") (simp_all add: StructName_Nil StructName_ok)

lemma ForeignKey_ok:
  "HasSuffix k ''_id'' \<Longrightarrow> ForeignKey k = Inr (SnakeToGocase (take (length k - 3) k) True)"
proof -
  assume "HasSuffix k ''_id''"
  then have "3 \<le> length k" by (simp add: HasSuffix_def)
  then have "nat (int (length k) - 3) = length k - 3" "\<not> int (length k) - 3 < 0" by simp_all
  then show ?thesis by (simp add: ForeignKey_def slice_to_def)
qed

lemma ForeignKey_append: "ForeignKey (b @ ''_id'') = Inr (SnakeToGocase b True)"
  using ForeignKey_ok [of "b @ ''_id''"] by (simp add: HasSuffix_def)

lemma fk_getter_ok:
  "HasSuffix (fst kv) ''_id'' \<Longrightarrow> \<exists>s. fk_getter t name kv = Inr s"
  by (cases kv) (simp add: fk_getter_def ForeignKey_ok Let_def)

lemma range_fks_ok:
  "\<forall>kv \<in> set kvs. HasSuffix (fst kv) ''_id'' \<Longrightarrow> \<exists>s. range_fks t name kvs = Inr s"
proof (induction kvs)
  case Nil
  then show ?case by simp
next
  case (Cons kv kvs)
  then obtain s ss where "fk_getter t name kv = Inr s" "range_fks t name kvs = Inr ss"
    using fk_getter_ok [of kv t name] by auto
  then show ?case by simp
qed

lemma write_method_ok: "StructName (Name t) = Inr name \<Longrightarrow> \<exists>s. write_method t = Inr s"
  by (simp add: write_method_def UpsertTemplate_def UpdateOrInsertTemplate_def)

lemma TableTemplate_ok:
  assumes "Name t \<noteq> []" and "\<forall>kv \<in> set (ForeignKeys t). HasSuffix (fst kv) ''_id''"
  shows "\<exists>s. TableTemplate t = Inr s"
proof -
  from assms(1) obtain name where n: "StructName (Name t) = Inr name"
    using StructName_ok by blast
  from assms(2) have "\<forall>kv \<in> set (range_map (ForeignKeys t)). HasSuffix (fst kv) ''_id''"
    by (simp add: range_map_def)
  then obtain g where g: "range_fks t name (range_map (ForeignKeys t)) = Inr g"
    using range_fks_ok by blast
  from n obtain w where w: "write_method t = Inr w" using write_method_ok by blast
  show ?thesis by (simp add: TableTemplate_def n g w)
qed

lemma TableTemplate_Nil: "Name t = [] \<Longrightarrow> TableTemplate t = Inl (SliceBoundsOutOfRange (- 1))"
  by (simp add: TableTemplate_def StructName_Nil)

lemma update_keys: "fst ` set (AList.update k v al) = insert k (fst ` set al)"
  by (induction al) auto

lemma keys_loop_suffix:
  "keys_loop tables t (a1, a2) = (p, f) \<Longrightarrow>
   \<forall>kv \<in> set a2. HasSuffix (fst kv) ''_id'' \<Longrightarrow> \<forall>kv \<in> set f. HasSuffix (fst kv) ''_id''"
proof (induction t arbitrary: a1 a2)
  case Nil
  then show ?case by simp
next
  case (Cons a t)
  obtain c ty where a: "a = (c, ty)" by (cases a)
  show ?case
  proof (cases "HasSuffix c ''_id'' \<and> map_of tables (referenced c) \<noteq> None")
    case True
    with Cons.prems(1) a have
      "keys_loop tables t (AList.update c ty a1, AList.update c ty a2) = (p, f)" by auto
    moreover have "\<forall>kv \<in> set (AList.update c ty a2). HasSuffix (fst kv) ''_id''"
      using Cons.prems(2) True update_keys [of c ty a2] by (metis image_iff insert_iff)
    ultimately show ?thesis by (rule Cons.IH)
  next
    case False
    with Cons.prems(1) a have "keys_loop tables t (a1, a2) = (p, f)"
      by (auto split: option.splits if_splits)
    then show ?thesis using Cons.prems(2) by (rule Cons.IH)
  qed
qed

lemma TableFromToml_sel:
  "Name (TableFromToml tables name t) = name" "Fields (TableFromToml tables name t) = t"
  "ForeignKeys (TableFromToml tables name t) = snd (keys_loop tables t ([], []))"
  by (simp_all add: TableFromToml_def split: prod.splits option.splits)

lemma ForeignKeys_suffix:
  "\<forall>kv \<in> set (ForeignKeys (TableFromToml tables name t)). HasSuffix (fst kv) ''_id''"
proof -
  obtain p f where k: "keys_loop tables t ([], []) = (p, f)" by (cases "keys_loop tables t ([], [])")
  from keys_loop_suffix [OF k] show ?thesis by (simp add: TableFromToml_sel k)
qed

lemma Execute_TableFromToml_ok:
  "name \<noteq> [] \<Longrightarrow> \<exists>text. Execute (TableFromToml tables name t) = Inr text"
  using TableTemplate_ok [of "TableFromToml tables name t"] ForeignKeys_suffix [of tables name t]
  by (auto simp: Execute_def FileTemplate_def TableFromToml_sel)

lemma Execute_TableFromToml_Nil:
  "Execute (TableFromToml tables [] t) = Inl (SliceBoundsOutOfRange (- 1))"
  by (simp add: Execute_def FileTemplate_def TableTemplate_Nil TableFromToml_sel)

section \<open>The driver and the parts of a generated file\<close>

lemma main_loop_ok:
  assumes "Execute (TableFromToml tables name flds) = Inr text"
    and "\<forall>s. env s (filename_of name)"
  shows "main_loop env tables ((name, flds) # rest) r =
     main_loop env tables rest
       (r\<lparr>created := created r @ [filename_of name],
          written := written r @ [(filename_of name, text)],
          generated := generated r @ [name]\<rparr>)"
  using assms by (simp add: Let_def)

lemma main_loop_render_fails:
  assumes "Execute (TableFromToml tables name flds) = Inl e"
  shows "main_loop env tables ((name, flds) # rest) r =
     Fatal (if env Create (filename_of name) then r\<lparr>created := created r @ [filename_of name]\<rparr> else r)"
  using assms by (simp add: Let_def)

lemma sublist_app_l: "sublist x y \<Longrightarrow> sublist x (p @ y)"
proof -
  assume "sublist x y"
  then obtain ps ss where "y = ps @ x @ ss" by (auto simp: sublist_def)
  then have "p @ y = (p @ ps) @ x @ ss" by simp
  then show ?thesis unfolding sublist_def by blast
qed

lemma sublist_app_r: "sublist x y \<Longrightarrow> sublist x (y @ s)"
proof -
  assume "sublist x y"
  then obtain ps ss where "y = ps @ x @ ss" by (auto simp: sublist_def)
  then have "y @ s = ps @ x @ (ss @ s)" by simp
  then show ?thesis unfolding sublist_def by blast
qed

lemma sublist_head: "sublist x (x @ s)"
  by simp

lemma sublist_self: "sublist x x"
  using sublist_head [of x "[]"] by simp

lemma sublist_around:
  assumes "c \<notin> set p"
  shows "sublist p (a @ c # b) \<longleftrightarrow> sublist p a \<or> sublist p b"
proof
  assume "sublist p (a @ c # b)"
  then obtain ps ss where e: "a @ c # b = ps @ p @ ss" by (auto simp: sublist_def)
  then consider us where "a = ps @ us" "us @ c # b = p @ ss"
    | us where "a @ us = ps" "c # b = us @ p @ ss"
    by (auto simp: append_eq_append_conv2)
  then show "sublist p a \<or> sublist p b"
  proof cases
    case 1
    from 1(2) consider vs where "us = p @ vs" | vs where "us @ vs = p" "c # b = vs @ ss"
      by (auto simp: append_eq_append_conv2)
    then show ?thesis
    proof cases
      case 1
      with \<open>a = ps @ us\<close> show ?thesis by (auto simp: sublist_def)
    next
      case 2
      with assms have "vs = []" by (cases vs) auto
      with 2 \<open>a = ps @ us\<close> have "a = ps @ p" by simp
      then have "sublist p a" by simp
      then show ?thesis ..
    qed
  next
    case 2
    show ?thesis
    proof (cases us)
      case Nil
      with 2(2) assms have "p = []" by (cases p) auto
      then show ?thesis by simp
    next
      case (Cons u us')
      with 2(2) have "b = us' @ p @ ss" by simp
      then show ?thesis by (auto simp: sublist_def)
    qed
  qed
next
  assume "sublist p a \<or> sublist p b"
  then show "sublist p (a @ c # b)"
  proof
    assume "sublist p a"
    then show ?thesis by (rule sublist_app_r)
  next
    assume "sublist p b"
    then have "sublist p ((a @ [c]) @ b)" by (rule sublist_app_l)
    then show ?thesis by simp
  qed
qed

lemma sublist_unlines:
  assumes "CHR 0x0A \<notin> set p" and "p \<noteq> []"
  shows "sublist p (unlines ls) \<longleftrightarrow> list_ex (sublist p) ls"
proof (induction ls)
  case Nil
  from assms(2) show ?case by (simp add: unlines_def)
next
  case (Cons l ls)
  have "unlines (l # ls) = l @ CHR 0x0A # unlines ls" by (simp add: unlines_def)
  with sublist_around [OF assms(1), of l "unlines ls"] Cons show ?case by simp
qed

lemma key_getter_query: "sublist (key_query t) (key_getter t name)"
  unfolding key_getter_def Let_def
  by (rule sublist_head | rule sublist_self | rule sublist_app_l)+

lemma range_fks_getter:
  "range_fks t name kvs = Inr s \<Longrightarrow> kv \<in> set kvs \<Longrightarrow> fk_getter t name kv = Inr g \<Longrightarrow> sublist g s"
proof (induction kvs arbitrary: s)
  case Nil
  then show ?case by simp
next
  case (Cons a kvs)
  from Cons.prems(1) obtain s1 s2 where a: "fk_getter t name a = Inr s1"
    and r: "range_fks t name kvs = Inr s2" and s: "s = s1 @ s2"
    by (auto split: sum.splits)
  show ?case
  proof (cases "kv = a")
    case True
    with a Cons.prems(3) s show ?thesis by simp
  next
    case False
    with Cons.prems(2) have "kv \<in> set kvs" by simp
    from Cons.IH [OF r this Cons.prems(3)] s show ?thesis by (simp add: sublist_app_l)
  qed
qed

lemma Execute_parts:
  assumes "Execute t = Inr text"
  obtains nm gs wr where "StructName (Name t) = Inr nm"
    and "range_fks t nm (range_map (ForeignKeys t)) = Inr gs"
    and "write_method t = Inr wr"
    and "sublist (struct_decl t nm) text" and "sublist (key_getter t nm) text"
    and "sublist gs text" and "sublist wr text" and "sublist (delete_method t nm) text"
proof -
  from assms obtain name getters wr where n: "StructName (Name t) = Inr name"
    and g: "range_fks t name (range_map (ForeignKeys t)) = Inr getters"
    and w: "write_method t = Inr wr"
    and tx: "text = file_header @ (''\<newline>'' @ ''\<newline>'' @ struct_decl t name @ ''\<newline>'' @
                         key_getter t name @ ''\<newline>'' @ getters @ ''\<newline>'' @
                         ''\<newline>'' @ ''\<newline>'' @ wr @ ''\<newline>'' @ ''\<newline>'' @
                         delete_method t name) @ ''\<newline>''"
    unfolding Execute_def FileTemplate_def TableTemplate_def
    by (auto split: sum.splits)
  have "sublist (struct_decl t name) text" unfolding tx
    by (rule sublist_app_l, rule sublist_app_r)
      (rule sublist_head | rule sublist_self | rule sublist_app_l)+
  moreover have "sublist (key_getter t name) text" unfolding tx
    by (rule sublist_app_l, rule sublist_app_r)
      (rule sublist_head | rule sublist_self | rule sublist_app_l)+
  moreover have "sublist getters text" unfolding tx 
    by (rule sublist_app_l, rule sublist_app_r)
      (rule sublist_head | rule sublist_self | rule sublist_app_l)+
  moreover have "sublist wr text" unfolding tx 
    by (rule sublist_app_l, rule sublist_app_r)
      (rule sublist_head | rule sublist_self | rule sublist_app_l)+
  moreover have "sublist (delete_method t name) text" unfolding tx 
    by (rule sublist_app_l, rule sublist_app_r)
      (rule sublist_head | rule sublist_self | rule sublist_app_l)+
  ultimately show ?thesis using that n g w by blast
qed

lemma sublist_trans: "sublist a b \<Longrightarrow> sublist b c \<Longrightarrow> sublist a c"
  by (rule sublist_order.order_trans)

lemma set_range_map: "set (range_map m) = set m"
  by (simp add: range_map_def)

lemma range_fks_all:
  "range_fks t name kvs = Inr s \<Longrightarrow> kv \<in> set kvs \<Longrightarrow> \<exists>g. fk_getter t name kv = Inr g"
proof (induction kvs arbitrary: s)
  case Nil
  then show ?case by simp
next
  case (Cons a kvs)
  from Cons.prems(1) obtain s1 s2 where a: "fk_getter t name a = Inr s1"
    and r: "range_fks t name kvs = Inr s2"
    by (auto split: sum.splits)
  show ?case
  proof (cases "kv = a")
    case True
    with a show ?thesis by simp
  next
    case False
    with Cons.prems(2) have "kv \<in> set kvs" by simp
    from Cons.IH [OF r this] show ?thesis .
  qed
qed

lemma fk_getter_signature:
  assumes "fk_getter t name (fk, fktype) = Inr g"
  shows "\<exists>rel. ForeignKey fk = Inr rel
           \<and> sublist (fk_signature (''Get'' @ rel @ name @ ''s'') name fk fktype) g"
proof -
  from assms obtain rel where rel: "ForeignKey fk = Inr rel"
    by (auto simp: fk_getter_def split: sum.splits)
  have "sublist (fk_signature (''Get'' @ rel @ name @ ''s'') name fk fktype) g"
    using assms unfolding fk_getter_def prod.case rel sum.case Let_def
    by (elim Inr_inject [elim_format], hypsubst)
       (rule sublist_head | rule sublist_self | rule sublist_app_l)+
  with rel show ?thesis by blast
qed

lemma write_method_upsert:
  assumes "Upsert t" and "write_method t = Inr w"
  shows "sublist (upsert_exec t) w"
proof -
  from assms obtain name where "StructName (Name t) = Inr name"
    by (auto simp: write_method_def UpsertTemplate_def split: sum.splits)
  with assms have w: "w = ''\<newline>'' @ (''\<newline>'' @ ''\<newline>'' @ ''\<newline>'' @
               ''// Write writes the change to the Database. This happens as an UPSERT statement.\<newline>'' @
               ''func (r *'' @ name @ '') Write(db db.DBContext) error {\<newline>'' @
               ''    if err := r.Verify(); err != nil {\<newline>'' @
               ''        return err\<newline>'' @ ''    }\<newline>'' @ upsert_exec t @
               ''    return errors.WithStack(err)\<newline>'' @ ''}\<newline>'') @ ''\<newline>''"
    unfolding write_method_def UpsertTemplate_def by simp
  show ?thesis unfolding w
    by (rule sublist_app_l, rule sublist_app_r)
      (rule sublist_head | rule sublist_self | rule sublist_app_l)+
qed

lemma upsert_exec_eq:
  \<open>upsert_exec t =
     ''    _, err := db.Exec("INSERT INTO '' @ Name t @ ''('' @ Join (sortKeys (Fields t)) '', '' @
     '') VALUES ('' @ Join (replicate (length (Fields t)) ''?'') '', '' @
     '') ON CONFLICT ('' @ Join (sortKeys (PrimaryKeys t)) '', '' @
     '') DO UPDATE SET '' @ Join (map (\<lambda>c. c @ '' = ?'') (sortKeys (Fields t))) '', '' @
     ''",\<newline>'' @ ''                        '' @
     Join (map (\<lambda>c. ''r.'' @ SnakeToGocase c True) (sortKeys (Fields t))) '', '' @ '', '' @
     Join (map (\<lambda>c. ''r.'' @ SnakeToGocase c True) (sortKeys (Fields t))) '', '' @ '')\<newline>''\<close>
  by (simp add: upsert_exec_def upsert_stmt_def upsert_args_def JoinArguments_Join
      JoinCondition_Join Marks_Join)

lemma key_query_empty:
  \<open>PrimaryKeys t = [] \<Longrightarrow>
   key_query t =
     ''    if err := db.Get(&result, "SELECT * FROM '' @ Name t @ '' WHERE ", ); err != nil {\<newline>''\<close>
  by (simp add: key_query_def select_by_key_def JoinCondition_def JoinArguments_def sortKeys_def)

lemma Execute_key_query:
  assumes "Execute t = Inr text"
  shows "sublist (key_query t) text"
proof -
  from assms obtain nm where "sublist (key_getter t nm) text" by (rule Execute_parts)
  with key_getter_query [of t nm] show ?thesis by (rule sublist_trans)
qed

section \<open>Two decodings of one schema\<close>

lemma same_schema_tables:
  assumes "same_schema s s'" and "(name, t) \<in> set s" and "(name, t') \<in> set s'"
  shows "same_map t t'" and "fst ` set s = fst ` set s'"
proof -
  from assms(1) have "\<forall>(n, t) \<in> set s. \<forall>(n', t') \<in> set s'. n \<noteq> n' \<or> same_map t t'"
    by (auto simp: same_schema_def list_all_iff)
  with assms(2,3) show "same_map t t'" by fastforce
  from assms(1) show "fst ` set s = fst ` set s'" by (simp add: same_schema_def)
qed

lemma Execute_same_schema:
  assumes "same_schema s s'" and "(name, t) \<in> set s" and "(name, t') \<in> set s'"
  shows "Execute (TableFromToml s name t) = Execute (TableFromToml s' name t')"
  using same_schema_tables [OF assms] by (intro Execute_same TableFromToml_same)

lemma sorted_sortKeys: "sorted (sortKeys k)" and set_sortKeys: "set (sortKeys k) = fst ` set k"
  by (simp_all add: sortKeys_def)

lemma main_loop_all_ok:
  assumes "[] \<notin> fst ` set xs"
  shows "main_loop all_succeed tables xs r =
     r\<lparr>created := created r @ map (filename_of \<circ> fst) xs,
       written := written r @ map (file_of tables) xs,
       generated := generated r @ map fst xs\<rparr>"
  using assms
proof (induction xs arbitrary: r)
  case Nil
  then show ?case by simp
next
  case (Cons a xs)
  obtain name t where a: "a = (name, t)" by (cases a)
  with Cons.prems have n: "name \<noteq> []" and xs: "[] \<notin> fst ` set xs" by auto
  from n obtain tx where e: "Execute (TableFromToml tables name t) = Inr tx"
    using Execute_TableFromToml_ok by blast
  have ok: "\<forall>s. all_succeed s (filename_of name)" by (simp add: all_succeed_def)
  show ?case
    unfolding a main_loop_ok [where env = all_succeed, OF e ok] Cons.IH [OF xs]
    by (simp add: file_of_def e)
qed

lemma main_all_ok:
  assumes "[] \<notin> fst ` set tables"
  shows "main all_succeed tables =
     \<lparr>created = map (filename_of \<circ> fst) tables, written = map (file_of tables) tables,
      generated = map fst tables, exit_code = 0\<rparr>"
  unfolding main_def main_loop_all_ok [OF assms] by simp

lemma file_of_same_schema:
  assumes "same_schema s s'" and "(name, t) \<in> set s"
  shows "file_of s (name, t) \<in> file_of s' ` set s'"
proof -
  from assms have "name \<in> fst ` set s'" by (force simp: same_schema_def)
  then obtain t' where t': "(name, t') \<in> set s'" by auto
  from Execute_same_schema [OF assms t'] have "file_of s (name, t) = file_of s' (name, t')"
    by (simp add: file_of_def)
  with t' show ?thesis by blast
qed

lemma same_schema_sym:
  assumes "same_schema s s'"
  shows "same_schema s' s"
proof -
  have "same_map t' t" if "(n, t') \<in> set s'" "(n, t) \<in> set s" for n t t'
    using same_schema_tables(1) [OF assms that(2) that(1)] by (rule same_map_sym)
  then have "list_all (\<lambda>(n, t). list_all (\<lambda>(n', t'). n \<noteq> n' \<or> same_map t t') s) s'"
    by (auto simp: list_all_iff)
  with assms show ?thesis by (simp add: same_schema_def)
qed

lemma written_same_schema:
  assumes "same_schema s s'" and "[] \<notin> fst ` set s"
  shows "set (written (main all_succeed s)) = set (written (main all_succeed s'))"
proof -
  from assms have e: "[] \<notin> fst ` set s'" by (simp add: same_schema_def)
  have "file_of s ` set s \<subseteq> file_of s' ` set s'"
    using file_of_same_schema [OF assms(1)] by auto
  moreover have "file_of s' ` set s' \<subseteq> file_of s ` set s"
    using file_of_same_schema [OF same_schema_sym [OF assms(1)]] by auto
  ultimately show ?thesis
    by (simp add: main_all_ok [OF assms(2)] main_all_ok [OF e])
qed

section \<open>Key inference: the claims\<close>

text \<open>
  C1. A raw table with a column named exactly \<open>id\<close>: the primary keys of the derived table
  are the single entry \<open>id\<close>, whatever other columns look like foreign keys, and \<open>Upsert\<close>
  is false exactly when the declared type of \<open>id\<close> is \<open>int\<close>.
\<close>

theorem TableFromToml_id:
  assumes "map_of t ''id'' = Some v"
  shows "PrimaryKeys (TableFromToml tables name t) = [(''id'', v)]
       \<and> Upsert (TableFromToml tables name t) = (v \<noteq> ''int'')"
  using assms by (simp add: TableFromToml_def split: prod.splits)

theorem TableFromToml_id_witness:
  "PrimaryKeys (TableFromToml blog_schema ''posts'' posts_columns) = [(''id'', ''int'')]
   \<and> Upsert (TableFromToml blog_schema ''posts'' posts_columns) = False"
proof -
  have h: "map_of posts_columns ''id'' = Some ''int''" by (simp add: posts_columns_def)
  from TableFromToml_id [OF h] show ?thesis by simp
qed

text \<open>
  C2. A raw table without a column named \<open>id\<close>: the primary keys are the foreign keys,
  these are exactly the columns \<open>b_id\<close> for which \<open>bs\<close> is a table name of the schema
  (a column of that shape whose table is missing is in neither set), and \<open>Upsert\<close> is true.
\<close>

theorem TableFromToml_no_id:
  assumes "wf_map t" and "''id'' \<notin> fst ` set t"
  shows "PrimaryKeys (TableFromToml tables name t) = ForeignKeys (TableFromToml tables name t)
       \<and> set (ForeignKeys (TableFromToml tables name t)) =
           {(c, ty). (c, ty) \<in> set t \<and> (\<exists>b. c = b @ ''_id'' \<and> b @ ''s'' \<in> fst ` set tables)}
       \<and> wf_map (ForeignKeys (TableFromToml tables name t))
       \<and> Upsert (TableFromToml tables name t) = True"
proof -
  from assms(2) have none: "map_of t ''id'' = None" by (simp add: map_of_eq_None_iff)
  have T: "TableFromToml tables name t =
      \<lparr>Name = name, Upsert = True, Fields = t, PrimaryKeys = filter (fk_shaped tables) t,
       ForeignKeys = filter (fk_shaped tables) t\<rparr>"
    by (simp add: TableFromToml_wf [OF assms(1)] none)
  have "set (filter (fk_shaped tables) t) =
      {(c, ty). (c, ty) \<in> set t \<and> (\<exists>b. c = b @ ''_id'' \<and> b @ ''s'' \<in> fst ` set tables)}"
    using fk_shaped_iff [of tables] by auto
  with T wf_map_filter [OF assms(1)] show ?thesis by simp
qed

theorem TableFromToml_no_id_witness:
  "PrimaryKeys (TableFromToml school_schema ''enrollments'' enrollments_columns) =
     ForeignKeys (TableFromToml school_schema ''enrollments'' enrollments_columns)
   \<and> set (ForeignKeys (TableFromToml school_schema ''enrollments'' enrollments_columns)) =
       {(c, ty). (c, ty) \<in> set enrollments_columns
          \<and> (\<exists>b. c = b @ ''_id'' \<and> b @ ''s'' \<in> fst ` set school_schema)}
   \<and> wf_map (ForeignKeys (TableFromToml school_schema ''enrollments'' enrollments_columns))
   \<and> Upsert (TableFromToml school_schema ''enrollments'' enrollments_columns) = True
   \<and> ForeignKeys (TableFromToml school_schema ''enrollments'' enrollments_columns) =
       [(''user_id'', ''int''), (''course_id'', ''int'')]"
proof -
  have h1: "wf_map enrollments_columns" by (simp add: wf_map_def enrollments_columns_def)
  have h2: "''id'' \<notin> fst ` set enrollments_columns" by (simp add: enrollments_columns_def)
  have c: "ForeignKeys (TableFromToml school_schema ''enrollments'' enrollments_columns) =
       [(''user_id'', ''int''), (''course_id'', ''int'')]" by code_simp
  from TableFromToml_no_id [OF h1 h2, of school_schema "''enrollments''"] c show ?thesis
    by blast
qed

section \<open>Naming: the claims\<close>

text \<open>
  C8. \<open>SnakeToGocase\<close> splits the identifier at the underscores and concatenates the
  rendered segments without a separator. Every segment after the first is rendered as \<open>ID\<close>
  when it is \<open>id\<close> and title-cased otherwise, and so is the first segment when \<open>export\<close> is
  true. When \<open>export\<close> is false the first segment is left as it is, also when it is \<open>id\<close>.
\<close>
theorem SnakeToGocase_segments:
  "\<exists>p ps. Split s (CHR ''_'') = p # ps \<and> Join (p # ps) ''_'' = s
     \<and> (\<forall>q \<in> set (p # ps). CHR ''_'' \<notin> set q)
     \<and> SnakeToGocase s export =
         (if export then (if p = ''id'' then ''ID'' else Title p) else p) @
         concat (map (\<lambda>q. if q = ''id'' then ''ID'' else Title q) ps)"
proof -
  obtain p ps where ps: "Split s (CHR ''_'') = p # ps"
    using Split_not_Nil [of s "CHR ''_''"] by (cases "Split s (CHR ''_'')") auto
  have "SnakeToGocase s export =
       (if export then (if p = ''id'' then ''ID'' else Title p) else p) @
       concat (map (\<lambda>q. if q = ''id'' then ''ID'' else Title q) ps)"
    unfolding SnakeToGocase_def ps gocase_loop_0 by simp
  moreover have "Join (p # ps) ''_'' = s" using Join_Split [of s "CHR ''_''"] ps by simp
  moreover have "\<forall>q \<in> set (p # ps). CHR ''_'' \<notin> set q"
    using Split_no_sep [of _ s "CHR ''_''"] ps by metis
  ultimately show ?thesis using ps by blast
qed

theorem SnakeToGocase_segments_witness:
  "SnakeToGocase ''contest_id'' True = ''ContestID''
   \<and> SnakeToGocase ''contest_id'' False = ''contestID''
   \<and> SnakeToGocase ''user_name'' False = ''userName''"
proof -
  have s: "Split ''contest_id'' (CHR ''_'') = [''contest'', ''id'']"
    "Split ''user_name'' (CHR ''_'') = [''user'', ''name'']" by simp_all
  have t: "Title ''contest'' = ''Contest''" "Title ''name'' = ''Name''" by code_simp+
  from SnakeToGocase_segments [of "''contest_id''" True]
    SnakeToGocase_segments [of "''contest_id''" False]
    SnakeToGocase_segments [of "''user_name''" False]
  show ?thesis unfolding s by (auto simp: t)
qed

text \<open>The first segment is exempt from the \<open>ID\<close> rule when \<open>export\<close> is false.\<close>

theorem SnakeToGocase_id_counterexample:
  "SnakeToGocase ''id'' False = ''id'' \<and> SnakeToGocase ''id_card'' False = ''idCard''"
  by code_simp

text \<open>
  C10. \<open>StructName\<close> of a table name of length at least one strips the last byte and exports
  the rest; on the empty name the slice \<open>tableName[:len(tableName)-1]\<close> has the upper bound
  \<open>-1\<close> and panics. The panic happens for the empty name only.
\<close>

theorem StructName_defined:
  "(tableName \<noteq> [] \<longrightarrow> StructName tableName = Inr (SnakeToGocase (butlast tableName) True))
   \<and> StructName [] = Inl (SliceBoundsOutOfRange (- 1))
   \<and> ((\<exists>e. StructName tableName = Inl e) \<longleftrightarrow> tableName = [])"
  using StructName_ok [of tableName] StructName_Nil StructName_Inl_iff [of tableName] by blast

theorem StructName_defined_witness:
  "StructName ''posts'' = Inr (SnakeToGocase ''post'' True) \<and> StructName ''posts'' = Inr ''Post''"
proof -
  have "SnakeToGocase ''post'' True = ''Post''" by code_simp
  with StructName_defined [of "''posts''"] show ?thesis by simp
qed

section \<open>Clause builders and rendering: the claims\<close>

text \<open>
  C9. On the empty map \<open>JoinCondition\<close>, \<open>Marks\<close> and \<open>JoinArguments\<close> return the empty string,
  for every separator and every receiver. So for a table without primary keys the by-key
  query and the delete statement end after \<open>WHERE\<close>, and the template is executed all the
  same when the table name is not empty.
\<close>

theorem clause_builders_empty:
  \<open>JoinCondition [] sep = [] \<and> Marks [] = [] \<and> JoinArguments [] structName = []
   \<and> (PrimaryKeys t = [] \<longrightarrow>
        key_query t =
          ''    if err := db.Get(&result, "SELECT * FROM '' @ Name t @ '' WHERE ", ); err != nil {\<newline>''
        \<and> delete_stmt t = ''DELETE FROM '' @ Name t @ '' WHERE ''
        \<and> (Name t \<noteq> [] \<and> ForeignKeys t = [] \<longrightarrow>
             (\<exists>text. Execute t = Inr text \<and> sublist (key_query t) text)))\<close>
proof -
  have a: "JoinCondition [] sep = [] \<and> Marks [] = [] \<and> JoinArguments [] structName = []"
    by (simp add: JoinCondition_def Marks_def JoinArguments_def sortKeys_def)
  have b: "delete_stmt t = ''DELETE FROM '' @ Name t @ '' WHERE ''" if "PrimaryKeys t = []"
    using that by (simp add: delete_stmt_def JoinCondition_def sortKeys_def)
  have c: "\<exists>text. Execute t = Inr text \<and> sublist (key_query t) text"
    if "Name t \<noteq> []" "ForeignKeys t = []"
  proof -
    from that obtain tx where "Execute t = Inr tx"
      using TableTemplate_ok [of t] by (auto simp: Execute_def FileTemplate_def)
    with Execute_key_query show ?thesis by blast
  qed
  from a b c key_query_empty [of t] show ?thesis by blast
qed

theorem clause_builders_empty_witness:
  \<open>JoinCondition [] '' AND '' = [] \<and> Marks [] = [] \<and> JoinArguments [] ''r'' = []
   \<and> key_query (TableFromToml logs_schema ''logs'' logs_columns) =
     ''    if err := db.Get(&result, "SELECT * FROM '' @ ''logs'' @ '' WHERE ", ); err != nil {\<newline>''
   \<and> delete_stmt (TableFromToml logs_schema ''logs'' logs_columns) =
       ''DELETE FROM '' @ ''logs'' @ '' WHERE ''
   \<and> (\<exists>text. Execute (TableFromToml logs_schema ''logs'' logs_columns) = Inr text
         \<and> sublist (key_query (TableFromToml logs_schema ''logs'' logs_columns)) text)\<close>
proof -
  have h: "PrimaryKeys (TableFromToml logs_schema ''logs'' logs_columns) = []"
    "ForeignKeys (TableFromToml logs_schema ''logs'' logs_columns) = []"
    by code_simp+
  have n: "Name (TableFromToml logs_schema ''logs'' logs_columns) = ''logs''"
    "Name (TableFromToml logs_schema ''logs'' logs_columns) \<noteq> []"
    by (simp_all add: TableFromToml_sel)
  from clause_builders_empty [of "'' AND ''" "''r''"
      "TableFromToml logs_schema ''logs'' logs_columns"] h n(2)
  show ?thesis unfolding n(1) by blast
qed

text \<open>
  C3. A table whose derivation gives no primary key is not rejected. When its name is not
  empty and the steps on its file succeed, the template is executed, the by-key query of
  the generated file has nothing after \<open>WHERE\<close>, and \<open>main\<close> records the file and goes on
  with the remaining tables.
\<close>

theorem empty_primary_keys_rendered:
  assumes "PrimaryKeys (TableFromToml tables name flds) = []" and "name \<noteq> []"
    and "\<forall>s. env s (filename_of name)"
  shows \<open>\<exists>text. Execute (TableFromToml tables name flds) = Inr text
      \<and> sublist (''    if err := db.Get(&result, "SELECT * FROM '' @ name @ '' WHERE ", ); err != nil {\<newline>'') text
      \<and> main_loop env tables ((name, flds) # rest) r =
          main_loop env tables rest
            (r\<lparr>created := created r @ [filename_of name],
               written := written r @ [(filename_of name, text)],
               generated := generated r @ [name]\<rparr>)\<close>
proof -
  from assms(2) obtain tx where e: "Execute (TableFromToml tables name flds) = Inr tx"
    using Execute_TableFromToml_ok by blast
  from Execute_key_query [OF e] key_query_empty [OF assms(1)]
  have "sublist (''    if err := db.Get(&result, \"SELECT * FROM '' @ name @ '' WHERE \", ); err != nil {\<newline>'') tx"
    by (simp add: TableFromToml_sel)
  with e main_loop_ok [where env = env, OF e assms(3)] show ?thesis by blast
qed

theorem empty_primary_keys_rendered_witness:
  \<open>\<exists>text. Execute (TableFromToml logs_schema ''logs'' logs_columns) = Inr text
      \<and> sublist (''    if err := db.Get(&result, "SELECT * FROM '' @ ''logs'' @ '' WHERE ", ); err != nil {\<newline>'') text
      \<and> main all_succeed logs_schema =
          \<lparr>created = [filename_of ''logs''], written = [(filename_of ''logs'', text)],
           generated = [''logs''], exit_code = 0\<rparr>\<close>
proof -
  have h1: "PrimaryKeys (TableFromToml logs_schema ''logs'' logs_columns) = []" by code_simp
  have h2: "''logs'' \<noteq> []" by simp
  have h3: "\<forall>s. all_succeed s (filename_of ''logs'')" by (simp add: all_succeed_def)
  have m: "main all_succeed logs_schema =
      main_loop all_succeed logs_schema ((''logs'', logs_columns) # [])
        \<lparr>created = [], written = [], generated = [], exit_code = 0\<rparr>"
    by (simp add: main_def logs_schema_def)
  from empty_primary_keys_rendered [where env = all_succeed and rest = "[]"
      and r = "\<lparr>created = [], written = [], generated = [], exit_code = 0\<rparr>", OF h1 h2 h3]
  show ?thesis unfolding m by simp
qed

text \<open>A table with the single column \<open>message\<close>: no primary key, a generated file and
  exit code 0.\<close>

theorem empty_primary_keys_counterexample:
  "PrimaryKeys (TableFromToml logs_schema ''logs'' logs_columns) = []
   \<and> generated (main all_succeed logs_schema) = [''logs'']
   \<and> map fst (written (main all_succeed logs_schema)) = [''models/logs_generated.go'']
   \<and> exit_code (main all_succeed logs_schema) = 0"
  by code_simp

text \<open>
  C6. When the template fails for a table, \<open>main\<close> calls \<open>log.Fatal\<close>: the run ends there with
  exit code 1, and nothing is written or generated for the tables that follow in the
  iteration, whatever they are.
\<close>

theorem render_failure_is_fatal:
  assumes "Execute (TableFromToml tables name flds) = Inl e"
  shows "exit_code (main_loop env tables ((name, flds) # rest) r) = 1
       \<and> generated (main_loop env tables ((name, flds) # rest) r) = generated r
       \<and> written (main_loop env tables ((name, flds) # rest) r) = written r"
  unfolding main_loop_render_fails [OF assms] by (simp add: Fatal_def)

theorem render_failure_is_fatal_witness:
  "exit_code (main_loop all_succeed unnamed_schema (([], [(''id'', ''int'')]) # [(''users'', [(''id'', ''int'')])])
      \<lparr>created = [], written = [], generated = [], exit_code = 0\<rparr>) = 1
   \<and> generated (main_loop all_succeed unnamed_schema (([], [(''id'', ''int'')]) # [(''users'', [(''id'', ''int'')])])
      \<lparr>created = [], written = [], generated = [], exit_code = 0\<rparr>) = []
   \<and> written (main_loop all_succeed unnamed_schema (([], [(''id'', ''int'')]) # [(''users'', [(''id'', ''int'')])])
      \<lparr>created = [], written = [], generated = [], exit_code = 0\<rparr>) = []"
proof -
  have h: "Execute (TableFromToml unnamed_schema [] [(''id'', ''int'')]) = Inl (SliceBoundsOutOfRange (- 1))"
    by (rule Execute_TableFromToml_Nil)
  from render_failure_is_fatal [OF h, of all_succeed "[(''users'', [(''id'', ''int'')])]"
      "\<lparr>created = [], written = [], generated = [], exit_code = 0\<rparr>"]
  show ?thesis by simp
qed

text \<open>The table \<open>users\<close> is generated when it is alone and is not when the table before it
  fails.\<close>

theorem render_failure_counterexample:
  "generated (main all_succeed unnamed_schema) = []
   \<and> written (main all_succeed unnamed_schema) = []
   \<and> exit_code (main all_succeed unnamed_schema) = 1
   \<and> generated (main all_succeed (tl unnamed_schema)) = [''users'']
   \<and> exit_code (main all_succeed (tl unnamed_schema)) = 0"
  by code_simp

text \<open>
  C4. The clause builders visit the columns in the lexicographic order of their names:
  \<open>sortKeys\<close> is sorted and holds the keys of the map, and \<open>JoinCondition\<close> and
  \<open>JoinArguments\<close> join the entries made from it, so two iteration orders of one map give
  the same text. Hence the result of executing the template for a table is the same for two
  decodings of one schema, and so is the set of files written by a run in which no table
  name is empty and every step succeeds.
\<close>

theorem clause_builders_sorted:
  "sorted (sortKeys k) \<and> set (sortKeys k) = fst ` set k
   \<and> JoinCondition k sep = Join (map (\<lambda>c. c @ '' = ?'') (sortKeys k)) sep
   \<and> JoinArguments k structName =
       Join (map (\<lambda>c. if structName = [] then SnakeToGocase c False
                      else if structName = ''-'' then c
                      else structName @ ''.'' @ SnakeToGocase c True) (sortKeys k)) '', ''
   \<and> (same_map k k' \<longrightarrow>
        sortKeys k = sortKeys k' \<and> JoinCondition k sep = JoinCondition k' sep
        \<and> JoinArguments k structName = JoinArguments k' structName)
   \<and> (same_schema s s' \<and> (name, t) \<in> set s \<and> (name, t') \<in> set s' \<longrightarrow>
        Execute (TableFromToml s name t) = Execute (TableFromToml s' name t'))
   \<and> (same_schema s s' \<and> [] \<notin> fst ` set s \<longrightarrow>
        set (written (main all_succeed s)) = set (written (main all_succeed s'))
        \<and> exit_code (main all_succeed s) = 0 \<and> exit_code (main all_succeed s') = 0)"
proof -
  have "exit_code (main all_succeed s) = 0 \<and> exit_code (main all_succeed s') = 0"
    if "same_schema s s'" "[] \<notin> fst ` set s"
  proof -
    from that have "[] \<notin> fst ` set s'" by (simp add: same_schema_def)
    with that(2) show ?thesis by (simp add: main_all_ok)
  qed
  then show ?thesis
    using sorted_sortKeys [of k] set_sortKeys [of k] JoinCondition_Join [of k sep]
      JoinArguments_Join [of k structName] sortKeys_same [of k k']
      JoinCondition_same [of k k' sep] JoinArguments_same [of k k' structName]
      Execute_same_schema [of s s' name t t'] written_same_schema [of s s']
    by blast
qed

theorem clause_builders_sorted_witness:
  "JoinCondition posts_columns '' AND '' = ''body = ? AND id = ? AND user_id = ?''
   \<and> JoinCondition (rev posts_columns) '' AND '' = ''body = ? AND id = ? AND user_id = ?''
   \<and> JoinArguments posts_columns ''r'' = JoinArguments (rev posts_columns) ''r''
   \<and> Execute (TableFromToml blog_schema ''posts'' posts_columns) =
       Execute (TableFromToml blog_schema_permuted ''posts'' (rev posts_columns))
   \<and> set (written (main all_succeed blog_schema)) =
       set (written (main all_succeed blog_schema_permuted))"
proof -
  have m: "same_map posts_columns (rev posts_columns)" by code_simp
  have s: "same_schema blog_schema blog_schema_permuted" by code_simp
  have i: "(''posts'', posts_columns) \<in> set blog_schema"
    "(''posts'', rev posts_columns) \<in> set blog_schema_permuted"
    "[] \<notin> fst ` set blog_schema"
    by (auto simp: blog_schema_def blog_schema_permuted_def posts_columns_def)
  have c: "JoinCondition posts_columns '' AND '' = ''body = ? AND id = ? AND user_id = ?''"
    by code_simp
  from clause_builders_sorted [of posts_columns "'' AND ''" "''r''" "rev posts_columns"
      blog_schema blog_schema_permuted "''posts''" posts_columns "rev posts_columns"] m s i c
  show ?thesis by metis
qed

text \<open>
  C5. A table with \<open>Upsert\<close> true: the generated \<open>Write\<close> method executes the statement
  \<open>INSERT INTO t(columns) VALUES (marks) ON CONFLICT (primary keys) DO UPDATE SET c = ?, ...\<close>
  where the \<open>SET\<close> clause has every column, the key columns included, all in sorted order
  and with one mark for each column; its arguments are the fields of all columns, twice.
\<close>

theorem upsert_statement:
  assumes "Upsert t" and "Execute t = Inr text"
  shows \<open>sublist
     (''    _, err := db.Exec("INSERT INTO '' @ Name t @ ''('' @ Join (sortKeys (Fields t)) '', '' @
      '') VALUES ('' @ Join (replicate (length (Fields t)) ''?'') '', '' @
      '') ON CONFLICT ('' @ Join (sortKeys (PrimaryKeys t)) '', '' @
      '') DO UPDATE SET '' @ Join (map (\<lambda>c. c @ '' = ?'') (sortKeys (Fields t))) '', '' @
      ''",\<newline>'' @ ''                        '' @
      Join (map (\<lambda>c. ''r.'' @ SnakeToGocase c True) (sortKeys (Fields t))) '', '' @ '', '' @
      Join (map (\<lambda>c. ''r.'' @ SnakeToGocase c True) (sortKeys (Fields t))) '', '' @ '')\<newline>'')
     text\<close>
proof -
  from assms(2) obtain wr where w: "write_method t = Inr wr" and s: "sublist wr text"
    by (rule Execute_parts)
  from write_method_upsert [OF assms(1) w] s have "sublist (upsert_exec t) text"
    by (rule sublist_trans)
  then show ?thesis unfolding upsert_exec_eq .
qed

theorem upsert_statement_witness:
  \<open>\<exists>text. Execute (TableFromToml users_schema ''users'' users_columns) = Inr text
     \<and> sublist
         (''    _, err := db.Exec("INSERT INTO users(id, name) VALUES (?, ?) ON CONFLICT (id) DO UPDATE SET id = ?, name = ?",\<newline>'' @
          ''                        r.ID, r.Name, r.ID, r.Name)\<newline>'')
         text\<close>
proof -
  obtain tx where e: "Execute (TableFromToml users_schema ''users'' users_columns) = Inr tx"
    using Execute_TableFromToml_ok [of "''users''"] by auto
  have u: "Upsert (TableFromToml users_schema ''users'' users_columns)" by code_simp
  have p: \<open>''    _, err := db.Exec("INSERT INTO '' @ Name (TableFromToml users_schema ''users'' users_columns) @ ''('' @ Join (sortKeys (Fields (TableFromToml users_schema ''users'' users_columns))) '', '' @
      '') VALUES ('' @ Join (replicate (length (Fields (TableFromToml users_schema ''users'' users_columns))) ''?'') '', '' @
      '') ON CONFLICT ('' @ Join (sortKeys (PrimaryKeys (TableFromToml users_schema ''users'' users_columns))) '', '' @
      '') DO UPDATE SET '' @ Join (map (\<lambda>c. c @ '' = ?'') (sortKeys (Fields (TableFromToml users_schema ''users'' users_columns)))) '', '' @
      ''",\<newline>'' @ ''                        '' @
      Join (map (\<lambda>c. ''r.'' @ SnakeToGocase c True) (sortKeys (Fields (TableFromToml users_schema ''users'' users_columns)))) '', '' @ '', '' @
      Join (map (\<lambda>c. ''r.'' @ SnakeToGocase c True) (sortKeys (Fields (TableFromToml users_schema ''users'' users_columns)))) '', '' @ '')\<newline>''
     = ''    _, err := db.Exec("INSERT INTO users(id, name) VALUES (?, ?) ON CONFLICT (id) DO UPDATE SET id = ?, name = ?",\<newline>'' @
          ''                        r.ID, r.Name, r.ID, r.Name)\<newline>''\<close>
    by code_simp
  from upsert_statement [OF u e] e show ?thesis unfolding p by blast
qed

text \<open>The table \<open>users\<close> with a text \<open>id\<close>: the key column \<open>id\<close> is in the \<open>SET\<close> clause.\<close>

theorem upsert_statement_counterexample:
  \<open>Upsert (TableFromToml users_schema ''users'' users_columns) = True
   \<and> PrimaryKeys (TableFromToml users_schema ''users'' users_columns) = [(''id'', ''text'')]
   \<and> upsert_stmt (TableFromToml users_schema ''users'' users_columns) =
       ''INSERT INTO users(id, name) VALUES (?, ?) ON CONFLICT (id) DO UPDATE SET id = ?, name = ?''\<close>
  by code_simp

text \<open>
  C7. The accessor generated for a foreign key of a table is named \<open>Get\<close>, then the relation
  (\<open>ForeignKey\<close> of the column), then the struct name of the table, then \<open>s\<close>. It takes
  \<open>db db.DBContext\<close> and the parameter of the column with its type and returns a slice of
  records and an error. For \<open>user_id\<close> of \<open>posts\<close> it is \<open>GetUserPosts\<close>.
\<close>

theorem fk_accessor_name:
  assumes "Execute t = Inr text" and "(fk, fktype) \<in> set (ForeignKeys t)"
  shows "\<exists>name rel. StructName (Name t) = Inr name \<and> ForeignKey fk = Inr rel
     \<and> sublist (''func Get'' @ rel @ name @ ''s(db db.DBContext, '' @ SnakeToGocase fk False @
          '' '' @ fktype @ '') ([]*'' @ name @ '', error) {'') text"
proof -
  from assms(1) obtain nm gs where n: "StructName (Name t) = Inr nm"
    and g: "range_fks t nm (range_map (ForeignKeys t)) = Inr gs" and s: "sublist gs text"
    by (rule Execute_parts)
  from assms(2) have m: "(fk, fktype) \<in> set (range_map (ForeignKeys t))"
    by (simp add: set_range_map)
  from range_fks_all [OF g m] obtain a where a: "fk_getter t nm (fk, fktype) = Inr a" by blast
  from fk_getter_signature [OF a] obtain rel where rel: "ForeignKey fk = Inr rel"
    and sg: "sublist (fk_signature (''Get'' @ rel @ nm @ ''s'') nm fk fktype) a" by blast
  from sg range_fks_getter [OF g m a] have "sublist (fk_signature (''Get'' @ rel @ nm @ ''s'') nm fk fktype) gs"
    by (rule sublist_trans)
  then have "sublist (fk_signature (''Get'' @ rel @ nm @ ''s'') nm fk fktype) text"
    using s by (rule sublist_trans)
  then have "sublist (''func Get'' @ rel @ nm @ ''s(db db.DBContext, '' @ SnakeToGocase fk False @
          '' '' @ fktype @ '') ([]*'' @ nm @ '', error) {'') text"
    by (simp add: fk_signature_def param_def)
  with n rel show ?thesis by blast
qed

theorem fk_accessor_name_witness:
  "\<exists>text. Execute (TableFromToml blog_schema ''posts'' posts_columns) = Inr text
     \<and> sublist ''func GetUserPosts(db db.DBContext, userID int) ([]*Post, error) {'' text"
proof -
  obtain tx where e: "Execute (TableFromToml blog_schema ''posts'' posts_columns) = Inr tx"
    using Execute_TableFromToml_ok [of "''posts''"] by auto
  have f: "(''user_id'', ''int'') \<in> set (ForeignKeys (TableFromToml blog_schema ''posts'' posts_columns))"
    by code_simp
  have v: "StructName (Name (TableFromToml blog_schema ''posts'' posts_columns)) = Inr ''Post''"
    "ForeignKey ''user_id'' = Inr ''User''" "SnakeToGocase ''user_id'' False = ''userID''"
    by code_simp+
  from fk_accessor_name [OF e f] show ?thesis unfolding v using e by auto
qed

text \<open>The whole file generated for \<open>posts\<close>: the accessor for \<open>user_id\<close> is \<open>GetUserPosts\<close>, and
  \<open>GetByUserPosts\<close> occurs nowhere.\<close>

theorem fk_accessor_name_counterexample:
  "Execute (TableFromToml blog_schema ''posts'' posts_columns) = Inr (unlines posts_file)
   \<and> \<not> sublist ''GetByUserPosts'' (unlines posts_file)
   \<and> sublist ''func GetUserPosts(db db.DBContext, userID int) ([]*Post, error) {''
        (unlines posts_file)"
proof -
  have "Execute (TableFromToml blog_schema ''posts'' posts_columns) = Inr (unlines posts_file)"
    by code_simp
  moreover have "\<not> list_ex (sublist ''GetByUserPosts'') posts_file" by code_simp
  moreover have
    "list_ex (sublist ''func GetUserPosts(db db.DBContext, userID int) ([]*Post, error) {'')
       posts_file"
    by code_simp
  ultimately show ?thesis by (simp add: sublist_unlines)
qed

end
